theory Spec2Isabelle
  imports Main "HOL-Library.AList"
begin

section \<open>JavaScript values and objects\<close>

text \<open>
  The library is a single TypeScript module: the interfaces \<open>Interceptors\<close>,
  \<open>ApiServiceConfig\<close> and \<open>ApiClientConfig\<close>, the class \<open>ApiService\<close> and the
  factory \<open>createApiClient\<close>.

  A plain object is the list of its own enumerable properties with their values.
  Defining a property, as an object literal and an object spread do, replaces the value
  of a key that is there and appends a key that is not, which is \<open>AList.update\<close>;
  this holds for every key, \<open>__proto__\<close> included. Reading an own property is
  \<open>map_of\<close>. A function value is compared by reference, so it is an identifier.
  The one assignment of the module, \<open>client[service.name] = svcClient\<close>, is not a
  definition but a write through the prototype chain, and the client object below has
  its prototype for that reason. The numeric ordering of index-like keys is outside the
  model: every statement reads objects through lookups or through the set of keys.
\<close>

type_synonym fn = nat

datatype jsval =
    VUndefined
  | VNull
  | VBool bool
  | VNum int
  | VStr string
  | VFun fn
  | VObj "(string \<times> jsval) list"

type_synonym AxiosRequestConfig = "(string \<times> jsval) list"

text \<open>
  Object spread \<open>{...src}\<close> into an object under construction: each own property of
  \<open>src\<close> is written in turn. An object literal \<open>{k1: v1, ...a, k2: v2}\<close> is a chain of
  such writes starting from the empty object.
\<close>

definition spread :: "('k \<times> 'v) list \<Rightarrow> ('k \<times> 'v) list \<Rightarrow> ('k \<times> 'v) list" where
  "spread obj src = fold (\<lambda>(k, v). AList.update k v) src obj"

section \<open>The transport library\<close>

text \<open>
  Modelled from the spec: the HTTP transport (axios) is an external package, consumed
  through a handle-creation function taking a configuration object, and through the
  registration methods \<open>interceptors.request.use(onFulfilled, onRejected)\<close> and
  \<open>interceptors.response.use(onFulfilled, onRejected)\<close> of a handle, each of which
  accepts one hook without the other. A handle records the configuration it was created
  with and, per direction, the hook pairs in the order of their registration.
\<close>

record handler =
  fulfilled :: "fn option"
  rejected :: "fn option"

record AxiosInstance =
  created_with :: AxiosRequestConfig
  request_handlers :: "handler list"
  response_handlers :: "handler list"

definition axios_create :: "AxiosRequestConfig \<Rightarrow> AxiosInstance" where
  "axios_create cfg =
     \<lparr>created_with = cfg, request_handlers = [], response_handlers = []\<rparr>"

definition request_use :: "fn option \<Rightarrow> fn option \<Rightarrow> AxiosInstance \<Rightarrow> AxiosInstance" where
  "request_use f r inst =
     inst\<lparr>request_handlers := request_handlers inst @ [\<lparr>fulfilled = f, rejected = r\<rparr>]\<rparr>"

definition response_use :: "fn option \<Rightarrow> fn option \<Rightarrow> AxiosInstance \<Rightarrow> AxiosInstance" where
  "response_use f r inst =
     inst\<lparr>response_handlers := response_handlers inst @ [\<lparr>fulfilled = f, rejected = r\<rparr>]\<rparr>"

section \<open>Interceptors, service configuration, ApiService\<close>

text \<open>
  \<open>interface Interceptors\<close>: both directions optional, and within a direction both
  hooks optional. An absent property and the value \<open>undefined\<close> are \<open>None\<close>.
\<close>

record Hooks =
  onFulfilled :: "fn option"
  onRejected :: "fn option"

record Interceptors =
  request :: "Hooks option"
  response :: "Hooks option"

text \<open>
  A thrown value is \<open>Thrown x\<close>. The module defines no error class and has no
  \<open>throw\<close> and no \<open>try\<close>; \<open>InvalidConfigError\<close> and \<open>EndpointFactoryError\<close> are the
  error kinds that the specification names, present here so that statements about them
  can be written. No function below produces them.
\<close>

datatype error =
    Thrown jsval
  | InvalidConfigError
  | EndpointFactoryError jsval

text \<open>
  The endpoint factory receives the handle and returns the endpoint object (its own
  properties) or throws. It is a function of the handle: registrations that a factory
  might itself make on the handle it is given are not followed.
\<close>

type_synonym endpoints = "(string \<times> jsval) list"

record ApiServiceConfig =
  cfg_name :: string
  cfg_baseUrl :: "string option"
  cfg_config :: "AxiosRequestConfig option"
  cfg_interceptors :: "Interceptors option"
  cfg_endpoints :: "AxiosInstance \<Rightarrow> jsval + endpoints"

record ApiService =
  name :: string
  baseUrl :: string
  config :: AxiosRequestConfig
  interceptors :: "Interceptors option"
  build :: "AxiosInstance \<Rightarrow> jsval + endpoints"

text \<open>
  \<open>ApiService.constructor\<close>: five assignments, with \<open>??\<close> supplying the defaults of
  \<open>baseUrl\<close> and \<open>config\<close>. It has no failing path, so the result is always \<open>Inr\<close>.
\<close>

definition ApiService_new :: "ApiServiceConfig \<Rightarrow> error + ApiService" where
  "ApiService_new cfg =
     Inr \<lparr>name = cfg_name cfg,
          baseUrl = (case cfg_baseUrl cfg of None \<Rightarrow> '''' | Some b \<Rightarrow> b),
          config = (case cfg_config cfg of None \<Rightarrow> [] | Some c \<Rightarrow> c),
          interceptors = cfg_interceptors cfg,
          build = cfg_endpoints cfg\<rparr>"

section \<open>createApiClient\<close>

text \<open>
  \<open>services\<close> is the caller's object as \<open>for (const key in services)\<close> enumerates it:
  the keys in enumeration order, each with \<open>services[key]\<close>.
\<close>

record ApiClientConfig =
  init_config :: "AxiosRequestConfig option"
  init_interceptors :: "Interceptors option"
  services :: "(string \<times> ApiService) list"

text \<open>
  A property of a service client holds an endpoint or plain value, the service's
  interceptor set (\<open>undefined\<close> is \<open>None\<close>), or the handle.
\<close>

datatype propval =
    PVal jsval
  | PInterceptors "Interceptors option"
  | PInstance AxiosInstance

type_synonym ServiceClient = "(string \<times> propval) list"

text \<open>
  The client object: \<open>const client = {}\<close>, a plain object whose prototype is
  \<open>Object.prototype\<close>, which carries the accessor \<open>__proto__\<close>. \<open>proto\<close> is
  \<open>None\<close> while the prototype is still \<open>Object.prototype\<close>.

  \<open>client[k] = v\<close> with \<open>k = "__proto__"\<close> finds no own property and reaches the
  inherited setter, which makes the object \<open>v\<close> the prototype of the client and adds
  no own property. With any other key it creates or overwrites an own property.

  \<open>client[k]\<close> as far as it yields a service client: an own property, or for
  \<open>k = "__proto__"\<close> the prototype that an assignment has installed. What else a
  read would find along the prototype chain (a property of the installed prototype, a
  builtin of \<open>Object.prototype\<close>) is not a service client.
\<close>

record ApiClient =
  own :: "(string \<times> ServiceClient) list"
  proto :: "ServiceClient option"

definition empty_client :: ApiClient where
  "empty_client = \<lparr>own = [], proto = None\<rparr>"

definition client_set :: "string \<Rightarrow> ServiceClient \<Rightarrow> ApiClient \<Rightarrow> ApiClient" where
  "client_set k v client =
     (if k = ''__proto__'' then client\<lparr>proto := Some v\<rparr>
      else client\<lparr>own := AList.update k v (own client)\<rparr>)"

definition client_get :: "ApiClient \<Rightarrow> string \<Rightarrow> ServiceClient option" where
  "client_get client k =
     (if k = ''__proto__'' then proto client else map_of (own client) k)"

text \<open>
  The merged Axios configuration of one service: the object literal
  \<open>{ baseURL: `${rootUrl}${service.baseUrl}`, ...globalConfig, ...service.config }\<close>.
\<close>

definition axiosConfig :: "string \<Rightarrow> AxiosRequestConfig \<Rightarrow> ApiService \<Rightarrow> AxiosRequestConfig" where
  "axiosConfig rootUrl globalConfig service =
     spread (spread (spread [] [(''baseURL'', VStr (rootUrl @ baseUrl service))])
                    globalConfig)
            (config service)"

text \<open>
  The four guarded registrations, in the order of the source: global request, global
  response, service request, service response. The guard \<open>ixs?.request\<close> holds when the
  interceptor set is there and has that direction; the non-null assertion \<open>!\<close> on
  \<open>onFulfilled\<close> is erased at run time, so an absent hook is passed as it is.
\<close>

definition use_request_of :: "Interceptors option \<Rightarrow> AxiosInstance \<Rightarrow> AxiosInstance" where
  "use_request_of ixs inst =
     (case Option.bind ixs request of
        None \<Rightarrow> inst
      | Some h \<Rightarrow> request_use (onFulfilled h) (onRejected h) inst)"

definition use_response_of :: "Interceptors option \<Rightarrow> AxiosInstance \<Rightarrow> AxiosInstance" where
  "use_response_of ixs inst =
     (case Option.bind ixs response of
        None \<Rightarrow> inst
      | Some h \<Rightarrow> response_use (onFulfilled h) (onRejected h) inst)"

definition apply_interceptors ::
  "Interceptors option \<Rightarrow> ApiService \<Rightarrow> AxiosInstance \<Rightarrow> AxiosInstance" where
  "apply_interceptors globalIxs service inst =
     use_response_of (interceptors service)
       (use_request_of (interceptors service)
         (use_response_of globalIxs
           (use_request_of globalIxs inst)))"

text \<open>The handle of a service at the moment its endpoint factory is called.\<close>

definition service_instance ::
  "string \<Rightarrow> AxiosRequestConfig \<Rightarrow> Interceptors option \<Rightarrow> ApiService \<Rightarrow> AxiosInstance" where
  "service_instance rootUrl globalConfig globalIxs service =
     apply_interceptors globalIxs service
       (axios_create (axiosConfig rootUrl globalConfig service))"

text \<open>
  The composed service client: the object literal
  \<open>{ ...endpoints, baseUrl: service.baseUrl, config: axiosConfig,
     interceptors: service.interceptors, instance }\<close>.
\<close>

definition svcClient ::
  "string \<Rightarrow> AxiosRequestConfig \<Rightarrow> Interceptors option \<Rightarrow> ApiService \<Rightarrow> endpoints \<Rightarrow> ServiceClient" where
  "svcClient rootUrl globalConfig globalIxs service eps =
     spread (spread [] (map (\<lambda>(k, v). (k, PVal v)) eps))
       [(''baseUrl'', PVal (VStr (baseUrl service))),
        (''config'', PVal (VObj (axiosConfig rootUrl globalConfig service))),
        (''interceptors'', PInterceptors (interceptors service)),
        (''instance'', PInstance (service_instance rootUrl globalConfig globalIxs service))]"

text \<open>
  The body of the loop for one service. A throw of the factory is not caught, so it
  leaves the loop and the function with the thrown value.
\<close>

definition service_client ::
  "string \<Rightarrow> AxiosRequestConfig \<Rightarrow> Interceptors option \<Rightarrow> ApiService \<Rightarrow> error + ServiceClient" where
  "service_client rootUrl globalConfig globalIxs service =
     (case build service (service_instance rootUrl globalConfig globalIxs service) of
        Inl x \<Rightarrow> Inl (Thrown x)
      | Inr eps \<Rightarrow> Inr (svcClient rootUrl globalConfig globalIxs service eps))"

fun assemble ::
  "string \<Rightarrow> AxiosRequestConfig \<Rightarrow> Interceptors option \<Rightarrow> (string \<times> ApiService) list
     \<Rightarrow> ApiClient \<Rightarrow> error + ApiClient" where
  "assemble rootUrl globalConfig globalIxs [] client = Inr client"
| "assemble rootUrl globalConfig globalIxs ((key, service) # rest) client =
     (case service_client rootUrl globalConfig globalIxs service of
        Inl e \<Rightarrow> Inl e
      | Inr sc \<Rightarrow>
          assemble rootUrl globalConfig globalIxs rest
            (client_set (name service) sc client))"

definition globalConfig_of :: "ApiClientConfig \<Rightarrow> AxiosRequestConfig" where
  "globalConfig_of init = (case init_config init of None \<Rightarrow> [] | Some c \<Rightarrow> c)"

definition createApiClient :: "string \<Rightarrow> ApiClientConfig \<Rightarrow> error + ApiClient" where
  "createApiClient rootUrl init =
     assemble rootUrl (globalConfig_of init) (init_interceptors init) (services init)
       empty_client"

section \<open>The merge of the specification, and example inputs\<close>

text \<open>
  The specification's shallow merge of a list of sources, read as maps: a later source
  overrides an earlier one key by key, and values are taken whole.
\<close>

definition shallow_merge :: "(string \<rightharpoonup> jsval) list \<Rightarrow> (string \<rightharpoonup> jsval)" where
  "shallow_merge srcs = foldl (++) Map.empty srcs"

text \<open>
  Example inputs: two services whose mapping keys differ from their names, an endpoint
  named \<open>config\<close>, hook sets with only \<open>onRejected\<close>, and a factory that throws.
\<close>

definition two_endpoints :: "AxiosInstance \<Rightarrow> jsval + endpoints" where
  "two_endpoints inst = Inr [(''getUser'', VFun 1), (''config'', VFun 2)]"

definition one_endpoint :: "AxiosInstance \<Rightarrow> jsval + endpoints" where
  "one_endpoint inst = Inr [(''list'', VFun 3)]"

definition throws_boom :: "AxiosInstance \<Rightarrow> jsval + endpoints" where
  "throws_boom inst = Inl (VStr ''boom'')"

definition users_cfg :: ApiServiceConfig where
  "users_cfg =
     \<lparr>cfg_name = ''users'', cfg_baseUrl = Some ''/users'',
      cfg_config = Some [(''timeout'', VNum 100), (''headers'', VObj [(''X-Svc'', VStr ''u'')])],
      cfg_interceptors =
        Some \<lparr>request = Some \<lparr>onFulfilled = None, onRejected = Some 20\<rparr>,
              response = Some \<lparr>onFulfilled = None, onRejected = Some 21\<rparr>\<rparr>,
      cfg_endpoints = two_endpoints\<rparr>"

definition posts_cfg :: ApiServiceConfig where
  "posts_cfg =
     \<lparr>cfg_name = ''posts'', cfg_baseUrl = None, cfg_config = None,
      cfg_interceptors = None, cfg_endpoints = one_endpoint\<rparr>"

definition users_service :: ApiService where
  "users_service =
     \<lparr>name = ''users'', baseUrl = ''/users'',
      config = [(''timeout'', VNum 100), (''headers'', VObj [(''X-Svc'', VStr ''u'')])],
      interceptors =
        Some \<lparr>request = Some \<lparr>onFulfilled = None, onRejected = Some 20\<rparr>,
              response = Some \<lparr>onFulfilled = None, onRejected = Some 21\<rparr>\<rparr>,
      build = two_endpoints\<rparr>"

definition posts_service :: ApiService where
  "posts_service =
     \<lparr>name = ''posts'', baseUrl = '''', config = [], interceptors = None,
      build = one_endpoint\<rparr>"

definition broken_service :: ApiService where
  "broken_service =
     \<lparr>name = ''broken'', baseUrl = ''/broken'', config = [], interceptors = None,
      build = throws_boom\<rparr>"

definition example_init :: ApiClientConfig where
  "example_init =
     \<lparr>init_config =
        Some [(''timeout'', VNum 5000),
              (''headers'', VObj [(''Content-Type'', VStr ''application/json'')])],
      init_interceptors =
        Some \<lparr>request = Some \<lparr>onFulfilled = None, onRejected = Some 10\<rparr>,
              response = Some \<lparr>onFulfilled = None, onRejected = Some 11\<rparr>\<rparr>,
      services = [(''u'', users_service), (''p'', posts_service)]\<rparr>"

definition broken_init :: ApiClientConfig where
  "broken_init =
     \<lparr>init_config = None, init_interceptors = None,
      services = [(''p'', posts_service), (''b'', broken_service), (''u'', users_service)]\<rparr>"

text \<open>A configuration record whose name is the empty string.\<close>

definition empty_name_cfg :: ApiServiceConfig where
  "empty_name_cfg =
     \<lparr>cfg_name = '''', cfg_baseUrl = None, cfg_config = None,
      cfg_interceptors = None, cfg_endpoints = one_endpoint\<rparr>"

text \<open>The client that the example assembly returns, written out.\<close>

definition users_client :: ServiceClient where
  "users_client =
     [(''getUser'', PVal (VFun 1)),
      (''config'',
       PVal (VObj [(''baseURL'', VStr ''https://api.example.com/users''),
                   (''timeout'', VNum 100),
                   (''headers'', VObj [(''X-Svc'', VStr ''u'')])])),
      (''baseUrl'', PVal (VStr ''/users'')),
      (''interceptors'',
       PInterceptors
         (Some \<lparr>request = Some \<lparr>onFulfilled = None, onRejected = Some 20\<rparr>,
                response = Some \<lparr>onFulfilled = None, onRejected = Some 21\<rparr>\<rparr>)),
      (''instance'',
       PInstance
         \<lparr>created_with =
            [(''baseURL'', VStr ''https://api.example.com/users''),
             (''timeout'', VNum 100),
             (''headers'', VObj [(''X-Svc'', VStr ''u'')])],
          request_handlers =
            [\<lparr>fulfilled = None, rejected = Some 10\<rparr>,
             \<lparr>fulfilled = None, rejected = Some 20\<rparr>],
          response_handlers =
            [\<lparr>fulfilled = None, rejected = Some 11\<rparr>,
             \<lparr>fulfilled = None, rejected = Some 21\<rparr>]\<rparr>)]"

definition posts_client :: ServiceClient where
  "posts_client =
     [(''list'', PVal (VFun 3)),
      (''baseUrl'', PVal (VStr '''')),
      (''config'',
       PVal (VObj [(''baseURL'', VStr ''https://api.example.com''),
                   (''timeout'', VNum 5000),
                   (''headers'', VObj [(''Content-Type'', VStr ''application/json'')])])),
      (''interceptors'', PInterceptors None),
      (''instance'',
       PInstance
         \<lparr>created_with =
            [(''baseURL'', VStr ''https://api.example.com''),
             (''timeout'', VNum 5000),
             (''headers'', VObj [(''Content-Type'', VStr ''application/json'')])],
          request_handlers = [\<lparr>fulfilled = None, rejected = Some 10\<rparr>],
          response_handlers = [\<lparr>fulfilled = None, rejected = Some 11\<rparr>]\<rparr>)]"

definition example_client :: ApiClient where
  "example_client =
     \<lparr>own = [(''users'', users_client), (''posts'', posts_client)], proto = None\<rparr>"

text \<open>
  Two services with distinct names, the second named \<open>__proto__\<close>, and the client
  that their assembly returns.
\<close>

definition proto_service :: ApiService where
  "proto_service =
     \<lparr>name = ''__proto__'', baseUrl = ''/proto'', config = [], interceptors = None,
      build = one_endpoint\<rparr>"

definition proto_init :: ApiClientConfig where
  "proto_init =
     \<lparr>init_config = None, init_interceptors = None,
      services = [(''p'', posts_service), (''x'', proto_service)]\<rparr>"

definition proto_client :: ApiClient where
  "proto_client =
     \<lparr>own =
        [(''posts'',
          [(''list'', PVal (VFun 3)),
           (''baseUrl'', PVal (VStr '''')),
           (''config'', PVal (VObj [(''baseURL'', VStr ''https://api.example.com'')])),
           (''interceptors'', PInterceptors None),
           (''instance'',
            PInstance
              \<lparr>created_with = [(''baseURL'', VStr ''https://api.example.com'')],
                 request_handlers = [], response_handlers = []\<rparr>)])],
      proto =
        Some [(''list'', PVal (VFun 3)),
              (''baseUrl'', PVal (VStr ''/proto'')),
              (''config'', PVal (VObj [(''baseURL'', VStr ''https://api.example.com/proto'')])),
              (''interceptors'', PInterceptors None),
              (''instance'',
               PInstance
                 \<lparr>created_with = [(''baseURL'', VStr ''https://api.example.com/proto'')],
                    request_handlers = [], response_handlers = []\<rparr>)]\<rparr>"

section \<open>Properties of spread and of the loop\<close>

lemma map_of_spread:
  "distinct (map fst src) \<Longrightarrow> map_of (spread obj src) = map_of obj ++ map_of src"
proof (induction src arbitrary: obj)
  case Nil
  then show ?case by (simp add: spread_def)
next
  case (Cons p src)
  obtain k v where p: "p = (k, v)" by (cases p)
  from Cons.prems p have k: "k \<notin> dom (map_of src)" and d: "distinct (map fst src)"
    by (auto simp: dom_map_of_conv_image_fst)
  have "map_of (spread obj (p # src)) = map_of (spread (AList.update k v obj) src)"
    by (simp add: spread_def p)
  also have "\<dots> = (map_of obj)(k \<mapsto> v) ++ map_of src"
    by (simp only: Cons.IH [OF d] AList.update_conv')
  also have "\<dots> = map_of obj ++ map_of (p # src)"
    using k by (simp add: p map_add_upd_left)
  finally show ?case .
qed

lemma client_get_set:
  "client_get (client_set k v client) n = (if n = k then Some v else client_get client n)"
  by (simp add: client_get_def client_set_def AList.update_conv')

lemma assemble_other:
  "assemble r g gi svcs acc = Inr client \<Longrightarrow> n \<notin> set (map (name \<circ> snd) svcs)
     \<Longrightarrow> client_get client n = client_get acc n"
proof (induction svcs arbitrary: acc)
  case Nil
  then show ?case by simp
next
  case (Cons p svcs)
  obtain k s where p: "p = (k, s)" by (cases p)
  from Cons.prems(1) p obtain sc where sc: "service_client r g gi s = Inr sc"
    and rest: "assemble r g gi svcs (client_set (name s) sc acc) = Inr client"
    by (auto split: sum.splits)
  from Cons.prems(2) p have "n \<noteq> name s" "n \<notin> set (map (name \<circ> snd) svcs)" by auto
  with Cons.IH [OF rest] show ?case by (simp add: client_get_set)
qed

lemma service_client_Inr:
  "service_client r g gi s = Inr sc \<longleftrightarrow>
     (\<exists>eps. build s (service_instance r g gi s) = Inr eps \<and> sc = svcClient r g gi s eps)"
  by (auto simp: service_client_def split: sum.splits)

lemma service_client_Inl:
  "service_client r g gi s = Inl e \<longleftrightarrow>
     (\<exists>x. build s (service_instance r g gi s) = Inl x \<and> e = Thrown x)"
  by (auto simp: service_client_def split: sum.splits)

lemma assemble_lookup:
  "assemble r g gi svcs acc = Inr client \<Longrightarrow> svcs = pre @ (k, s) # post
     \<Longrightarrow> name s \<notin> set (map (name \<circ> snd) post)
     \<Longrightarrow> \<exists>eps. build s (service_instance r g gi s) = Inr eps
           \<and> client_get client (name s) = Some (svcClient r g gi s eps)"
proof (induction pre arbitrary: svcs acc)
  case Nil
  from Nil.prems(1,2) obtain sc where sc: "service_client r g gi s = Inr sc"
    and rest: "assemble r g gi post (client_set (name s) sc acc) = Inr client"
    by (auto split: sum.splits)
  from assemble_other [OF rest Nil.prems(3)]
  have "client_get client (name s) = Some sc" by (simp add: client_get_set)
  with sc show ?case by (auto simp: service_client_Inr)
next
  case (Cons p pre)
  obtain k' s' where p: "p = (k', s')" by (cases p)
  from Cons.prems(1,2) p obtain sc where
    rest: "assemble r g gi (pre @ (k, s) # post) (client_set (name s') sc acc) = Inr client"
    by (auto split: sum.splits)
  from Cons.IH [OF rest refl Cons.prems(3)] show ?case .
qed

lemma assemble_all_built:
  "assemble r g gi svcs acc = Inr client \<Longrightarrow> (k, s) \<in> set svcs
     \<Longrightarrow> \<exists>eps. build s (service_instance r g gi s) = Inr eps"
proof (induction svcs arbitrary: acc)
  case Nil
  then show ?case by simp
next
  case (Cons p svcs)
  obtain k' s' where p: "p = (k', s')" by (cases p)
  from Cons.prems(1) p obtain sc where sc: "service_client r g gi s' = Inr sc"
    and rest: "assemble r g gi svcs (client_set (name s') sc acc) = Inr client"
    by (auto split: sum.splits)
  show ?case
  proof (cases "(k, s) = p")
    case True
    with sc p show ?thesis by (auto simp: service_client_Inr)
  next
    case False
    with Cons.prems(2) have "(k, s) \<in> set svcs" by simp
    from Cons.IH [OF rest this] show ?thesis .
  qed
qed

lemma assemble_total:
  "(\<And>k s. (k, s) \<in> set svcs \<Longrightarrow> \<exists>eps. build s (service_instance r g gi s) = Inr eps)
     \<Longrightarrow> \<exists>client. assemble r g gi svcs acc = Inr client"
proof (induction svcs arbitrary: acc)
  case Nil
  then show ?case by simp
next
  case (Cons p svcs)
  obtain k s where p: "p = (k, s)" by (cases p)
  from Cons.prems [of k s] p obtain eps where
    "build s (service_instance r g gi s) = Inr eps" by auto
  then have sc: "service_client r g gi s = Inr (svcClient r g gi s eps)"
    by (simp add: service_client_Inr)
  have "\<exists>client. assemble r g gi svcs (client_set (name s) (svcClient r g gi s eps) acc) = Inr client"
  proof (rule Cons.IH)
    fix k' s' assume "(k', s') \<in> set svcs"
    then show "\<exists>eps. build s' (service_instance r g gi s') = Inr eps"
      using Cons.prems [of k' s'] by simp
  qed
  with sc p show ?case by simp
qed

lemma assemble_first_throw:
  "svcs = pre @ (k, s) # post
     \<Longrightarrow> (\<And>k' s'. (k', s') \<in> set pre \<Longrightarrow> \<exists>eps. build s' (service_instance r g gi s') = Inr eps)
     \<Longrightarrow> build s (service_instance r g gi s) = Inl x
     \<Longrightarrow> assemble r g gi svcs acc = Inl (Thrown x)"
proof (induction pre arbitrary: svcs acc)
  case Nil
  then show ?case by (simp add: service_client_def)
next
  case (Cons p pre)
  obtain k' s' where p: "p = (k', s')" by (cases p)
  from Cons.prems(2) [of k' s'] p obtain eps where
    "build s' (service_instance r g gi s') = Inr eps" by auto
  then have sc: "service_client r g gi s' = Inr (svcClient r g gi s' eps)"
    by (simp add: service_client_Inr)
  have "assemble r g gi (pre @ (k, s) # post) (client_set (name s') (svcClient r g gi s' eps) acc)
          = Inl (Thrown x)"
  proof (rule Cons.IH [OF refl _ Cons.prems(3)])
    fix k'' s'' assume "(k'', s'') \<in> set pre"
    then show "\<exists>eps. build s'' (service_instance r g gi s'') = Inr eps"
      using Cons.prems(2) [of k'' s''] by simp
  qed
  with sc p Cons.prems(1) show ?case by simp
qed

lemma assemble_keys:
  "assemble r g gi svcs acc = Inr client
     \<Longrightarrow> fst ` set (own client)
           = fst ` set (own acc) \<union> ((name \<circ> snd) ` set svcs - {''__proto__''})"
proof (induction svcs arbitrary: acc)
  case Nil
  then show ?case by simp
next
  case (Cons p svcs)
  obtain k s where p: "p = (k, s)" by (cases p)
  from Cons.prems(1) p obtain sc where
    rest: "assemble r g gi svcs (client_set (name s) sc acc) = Inr client"
    by (auto split: sum.splits)
  from Cons.IH [OF rest] show ?case
    by (auto simp: p client_set_def AList.dom_update split: if_splits)
qed

lemma assemble_distinct:
  "assemble r g gi svcs acc = Inr client \<Longrightarrow> distinct (map fst (own acc))
     \<Longrightarrow> distinct (map fst (own client))"
proof (induction svcs arbitrary: acc)
  case Nil
  then show ?case by simp
next
  case (Cons p svcs)
  obtain k s where p: "p = (k, s)" by (cases p)
  from Cons.prems(1) p obtain sc where
    rest: "assemble r g gi svcs (client_set (name s) sc acc) = Inr client"
    by (auto split: sum.splits)
  from Cons.IH [OF rest] Cons.prems(2) show ?case
    by (simp add: client_set_def AList.distinct_update)
qed

text \<open>A failed run ends with the value thrown by one of the factories.\<close>

lemma assemble_Inl:
  "assemble r g gi svcs acc = Inl e
     \<Longrightarrow> \<exists>(k, s) \<in> set svcs. \<exists>x. build s (service_instance r g gi s) = Inl x \<and> e = Thrown x"
proof (induction svcs arbitrary: acc)
  case Nil
  then show ?case by simp
next
  case (Cons p svcs)
  obtain k s where p: "p = (k, s)" by (cases p)
  show ?case
  proof (cases "service_client r g gi s")
    case (Inl e')
    with Cons.prems p have "e' = e" by simp
    with Inl p show ?thesis by (auto simp: service_client_Inl)
  next
    case (Inr sc)
    with Cons.prems p have "assemble r g gi svcs (client_set (name s) sc acc) = Inl e"
      by simp
    from Cons.IH [OF this] show ?thesis by auto
  qed
qed

subsection \<open>The example runs\<close>

lemmas model_defs =
  createApiClient_def empty_client_def client_set_def client_get_def
  globalConfig_of_def service_client_def svcClient_def
  service_instance_def apply_interceptors_def use_request_of_def use_response_of_def
  request_use_def response_use_def axios_create_def axiosConfig_def spread_def

lemmas example_defs =
  example_init_def broken_init_def users_service_def posts_service_def
  broken_service_def empty_name_cfg_def two_endpoints_def one_endpoint_def throws_boom_def
  example_client_def users_client_def posts_client_def
  proto_service_def proto_init_def proto_client_def

lemma example_run:
  "createApiClient ''https://api.example.com'' example_init = Inr example_client"
  by (simp add: model_defs example_defs)

lemma broken_run:
  "createApiClient ''https://api.example.com'' broken_init = Inl (Thrown (VStr ''boom''))"
  by (simp add: model_defs example_defs)

lemma example_services:
  "services example_init = [] @ (''u'', users_service) # [(''p'', posts_service)]"
  "services example_init = [(''u'', users_service)] @ (''p'', posts_service) # []"
  by (simp_all add: example_init_def)

subsection \<open>One service\<close>

lemma map_of_spread_other:
  "k \<notin> fst ` set src \<Longrightarrow> map_of (spread obj src) k = map_of obj k"
proof (induction src arbitrary: obj)
  case Nil
  then show ?case by (simp add: spread_def)
next
  case (Cons p src)
  obtain k' v where p: "p = (k', v)" by (cases p)
  from Cons.prems p have ne: "k \<noteq> k'" and rest: "k \<notin> fst ` set src" by auto
  have "map_of (spread obj (p # src)) k = map_of (spread (AList.update k' v obj) src) k"
    by (simp add: spread_def p)
  also have "\<dots> = map_of (AList.update k' v obj) k"
    by (rule Cons.IH [OF rest])
  also have "\<dots> = map_of obj k"
    using ne by (simp add: AList.update_conv')
  finally show ?case .
qed

lemma svcClient_fields:
  "map_of (svcClient r g gi s eps) ''baseUrl'' = Some (PVal (VStr (baseUrl s)))"
  "map_of (svcClient r g gi s eps) ''config'' = Some (PVal (VObj (axiosConfig r g s)))"
  "map_of (svcClient r g gi s eps) ''interceptors'' = Some (PInterceptors (interceptors s))"
  "map_of (svcClient r g gi s eps) ''instance'' = Some (PInstance (service_instance r g gi s))"
  by (simp_all add: svcClient_def map_of_spread)

lemma service_instance_fields:
  "created_with (service_instance r g gi s) = axiosConfig r g s"
  "request_handlers (service_instance r g gi s)
     = (case Option.bind gi request of None \<Rightarrow> []
        | Some h \<Rightarrow> [\<lparr>fulfilled = onFulfilled h, rejected = onRejected h\<rparr>])
       @ (case Option.bind (interceptors s) request of None \<Rightarrow> []
          | Some h \<Rightarrow> [\<lparr>fulfilled = onFulfilled h, rejected = onRejected h\<rparr>])"
  "response_handlers (service_instance r g gi s)
     = (case Option.bind gi response of None \<Rightarrow> []
        | Some h \<Rightarrow> [\<lparr>fulfilled = onFulfilled h, rejected = onRejected h\<rparr>])
       @ (case Option.bind (interceptors s) response of None \<Rightarrow> []
          | Some h \<Rightarrow> [\<lparr>fulfilled = onFulfilled h, rejected = onRejected h\<rparr>])"
  by (simp_all add: service_instance_def apply_interceptors_def use_request_of_def
      use_response_of_def request_use_def response_use_def axios_create_def
      split: option.splits)

lemma axiosConfig_merge:
  "distinct (map fst g) \<Longrightarrow> distinct (map fst (config s))
     \<Longrightarrow> map_of (axiosConfig r g s)
         = shallow_merge [[''baseURL'' \<mapsto> VStr (r @ baseUrl s)], map_of g, map_of (config s)]"
  by (simp add: axiosConfig_def shallow_merge_def map_of_spread)

text \<open>
  The entry of a service in the returned client, when no later service has its name.
\<close>

lemma client_entry:
  assumes "createApiClient rootUrl init = Inr client"
    and "services init = pre @ (key, service) # post"
    and "name service \<notin> set (map (name \<circ> snd) post)"
  shows "\<exists>eps. build service
                 (service_instance rootUrl (globalConfig_of init) (init_interceptors init) service)
               = Inr eps
             \<and> client_get client (name service)
               = Some (svcClient rootUrl (globalConfig_of init) (init_interceptors init) service eps)"
  using assms unfolding createApiClient_def by (rule assemble_lookup)

subsection \<open>All services\<close>

text \<open>
  When the descriptors have pairwise distinct names and none is named \<open>__proto__\<close>,
  the returned client has as many own entries as there are services, with distinct
  keys, the keys being the descriptors' names (whatever mapping keys the caller used),
  and the entry under a descriptor's name being the service client of that descriptor.
\<close>

lemma one_entry_per_service_without_proto_name:
  assumes "createApiClient rootUrl init = Inr client"
    and "distinct (map (name \<circ> snd) (services init))"
    and "''__proto__'' \<notin> set (map (name \<circ> snd) (services init))"
  shows "length (own client) = length (services init)
           \<and> distinct (map fst (own client))
           \<and> fst ` set (own client) = (name \<circ> snd) ` set (services init)
           \<and> proto client = None
           \<and> (\<forall>(key, service) \<in> set (services init).
                 \<exists>eps. build service
                         (service_instance rootUrl (globalConfig_of init)
                            (init_interceptors init) service) = Inr eps
                   \<and> map_of (own client) (name service)
                       = Some (svcClient rootUrl (globalConfig_of init)
                                 (init_interceptors init) service eps))"
proof -
  let ?g = "globalConfig_of init" and ?gi = "init_interceptors init"
  from assms(1) have run: "assemble rootUrl ?g ?gi (services init) empty_client = Inr client"
    by (simp add: createApiClient_def)
  from assemble_keys [OF run] assms(3)
  have keys: "fst ` set (own client) = (name \<circ> snd) ` set (services init)"
    by (simp add: empty_client_def)
  from assemble_distinct [OF run] have dist: "distinct (map fst (own client))"
    by (simp add: empty_client_def)
  have "length (own client) = length (map fst (own client))" by simp
  also have "\<dots> = card (set (map fst (own client)))"
    using dist by (rule distinct_card [symmetric])
  also have "\<dots> = card (set (map (name \<circ> snd) (services init)))"
    using keys by simp
  also have "\<dots> = length (map (name \<circ> snd) (services init))"
    using assms(2) by (rule distinct_card)
  finally have len: "length (own client) = length (services init)" by simp
  from assemble_other [OF run assms(3)] have pr: "proto client = None"
    by (simp add: client_get_def empty_client_def)
  have each: "\<forall>(key, service) \<in> set (services init).
                 \<exists>eps. build service (service_instance rootUrl ?g ?gi service) = Inr eps
                   \<and> map_of (own client) (name service)
                       = Some (svcClient rootUrl ?g ?gi service eps)"
  proof (clarify)
    fix key service assume mem: "(key, service) \<in> set (services init)"
    then obtain pre post where sp: "services init = pre @ (key, service) # post"
      by (auto dest: split_list)
    with assms(2) have "name service \<notin> set (map (name \<circ> snd) post)"
      by simp
    from client_entry [OF assms(1) sp this] obtain eps where
      "build service (service_instance rootUrl ?g ?gi service) = Inr eps"
      "client_get client (name service) = Some (svcClient rootUrl ?g ?gi service eps)"
      by blast
    moreover from mem assms(3) have "name service \<noteq> ''__proto__''" by force
    ultimately
    show "\<exists>eps. build service (service_instance rootUrl ?g ?gi service) = Inr eps
                   \<and> map_of (own client) (name service)
                       = Some (svcClient rootUrl ?g ?gi service eps)"
      by (auto simp: client_get_def)
  qed
  from len dist keys pr each show ?thesis by blast
qed

section \<open>The claims\<close>

text \<open>
  Claim C1. For every service assembled by \<open>createApiClient\<close> (every service whose
  entry in the returned client is not overwritten by a later service of the same name),
  the configuration passed to the handle constructor, which is also the client's
  \<open>config\<close> field, is the shallow merge of \<open>{baseURL: rootUrl + service.baseUrl}\<close>,
  the global configuration and the service's own configuration, in that order: key by
  key the service's value wins over the global one, which wins over the derived
  \<open>baseURL\<close>, and values are taken whole. The configurations are objects, so their
  keys are distinct.
\<close>

theorem effective_config_is_shallow_merge:
  assumes "createApiClient rootUrl init = Inr client"
    and "services init = pre @ (key, service) # post"
    and "name service \<notin> set (map (name \<circ> snd) post)"
    and "distinct (map fst (globalConfig_of init))"
    and "distinct (map fst (config service))"
  shows "\<exists>sc inst. client_get client (name service) = Some sc
           \<and> map_of sc ''instance'' = Some (PInstance inst)
           \<and> map_of sc ''config'' = Some (PVal (VObj (created_with inst)))
           \<and> map_of (created_with inst)
               = shallow_merge [[''baseURL'' \<mapsto> VStr (rootUrl @ baseUrl service)],
                                map_of (globalConfig_of init), map_of (config service)]
           \<and> (\<forall>k. map_of (created_with inst) k
                  = (case map_of (config service) k of
                       Some v \<Rightarrow> Some v
                     | None \<Rightarrow>
                         (case map_of (globalConfig_of init) k of
                            Some v \<Rightarrow> Some v
                          | None \<Rightarrow>
                              if k = ''baseURL''
                              then Some (VStr (rootUrl @ baseUrl service)) else None)))"
proof -
  let ?g = "globalConfig_of init" and ?gi = "init_interceptors init"
  from client_entry [OF assms(1-3)] obtain eps where
    entry: "client_get client (name service) = Some (svcClient rootUrl ?g ?gi service eps)"
    by blast
  let ?inst = "service_instance rootUrl ?g ?gi service"
  have cw: "created_with ?inst = axiosConfig rootUrl ?g service"
    by (rule service_instance_fields(1))
  have merge: "map_of (created_with ?inst)
      = shallow_merge [[''baseURL'' \<mapsto> VStr (rootUrl @ baseUrl service)],
                       map_of ?g, map_of (config service)]"
    unfolding cw by (rule axiosConfig_merge [OF assms(4,5)])
  have keywise: "\<forall>k. map_of (created_with ?inst) k
                  = (case map_of (config service) k of
                       Some v \<Rightarrow> Some v
                     | None \<Rightarrow>
                         (case map_of ?g k of
                            Some v \<Rightarrow> Some v
                          | None \<Rightarrow>
                              if k = ''baseURL''
                              then Some (VStr (rootUrl @ baseUrl service)) else None))"
    unfolding merge by (simp add: shallow_merge_def map_add_def split: option.splits)
  from entry cw merge keywise show ?thesis
    by (intro exI [of _ "svcClient rootUrl ?g ?gi service eps"] exI [of _ ?inst])
       (simp add: svcClient_fields)
qed

theorem effective_config_is_shallow_merge_witness:
  "createApiClient ''https://api.example.com'' example_init = Inr example_client
   \<and> services example_init = [] @ (''u'', users_service) # [(''p'', posts_service)]
   \<and> name users_service \<notin> set (map (name \<circ> snd) [(''p'', posts_service)])
   \<and> distinct (map fst (globalConfig_of example_init))
   \<and> distinct (map fst (config users_service))
   \<and> (\<exists>sc inst. client_get example_client (name users_service) = Some sc
           \<and> map_of sc ''instance'' = Some (PInstance inst)
           \<and> map_of sc ''config'' = Some (PVal (VObj (created_with inst)))
           \<and> map_of (created_with inst)
               = shallow_merge [[''baseURL'' \<mapsto> VStr (''https://api.example.com'' @ baseUrl users_service)],
                                map_of (globalConfig_of example_init), map_of (config users_service)]
           \<and> map_of (created_with inst) ''timeout'' = Some (VNum 100)
           \<and> map_of (created_with inst) ''headers'' = Some (VObj [(''X-Svc'', VStr ''u'')])
           \<and> map_of (created_with inst) ''baseURL'' = Some (VStr ''https://api.example.com/users''))"
proof -
  have h1: "createApiClient ''https://api.example.com'' example_init = Inr example_client"
    by (rule example_run)
  have h2: "services example_init = [] @ (''u'', users_service) # [(''p'', posts_service)]"
    by (rule example_services(1))
  have h3: "name users_service \<notin> set (map (name \<circ> snd) [(''p'', posts_service)])"
    by (simp add: users_service_def posts_service_def)
  have h4: "distinct (map fst (globalConfig_of example_init))"
    by (simp add: globalConfig_of_def example_init_def)
  have h5: "distinct (map fst (config users_service))"
    by (simp add: users_service_def)
  from effective_config_is_shallow_merge [OF h1 h2 h3 h4 h5]
  obtain sc inst where
    a: "client_get example_client (name users_service) = Some sc"
    and b: "map_of sc ''instance'' = Some (PInstance inst)"
    and c: "map_of sc ''config'' = Some (PVal (VObj (created_with inst)))"
    and d: "map_of (created_with inst)
               = shallow_merge [[''baseURL'' \<mapsto> VStr (''https://api.example.com'' @ baseUrl users_service)],
                                map_of (globalConfig_of example_init), map_of (config users_service)]"
    by blast
  from a have sc: "sc = users_client"
    by (simp add: example_client_def client_get_def users_service_def)
  from b have inst: "created_with inst = [(''baseURL'', VStr ''https://api.example.com/users''),
             (''timeout'', VNum 100),
             (''headers'', VObj [(''X-Svc'', VStr ''u'')])]"
    unfolding sc by (auto simp add: users_client_def)
  have e: "map_of (created_with inst) ''timeout'' = Some (VNum 100)"
    "map_of (created_with inst) ''headers'' = Some (VObj [(''X-Svc'', VStr ''u'')])"
    "map_of (created_with inst) ''baseURL'' = Some (VStr ''https://api.example.com/users'')"
    by (simp_all add: inst)
  from a b c d e h1 h2 h3 h4 h5 show ?thesis by blast
qed

text \<open>
  Claim C2. For every assembled service, the request chain of its handle holds the
  global request hooks first (if the global set has a request direction), then the
  service's request hooks (if its set has one), and nothing else; the response chain
  likewise. So a service registration neither replaces nor removes a global one, and
  when both are present both are registered, the global one first.
\<close>

theorem interceptors_registered_global_first:
  assumes "createApiClient rootUrl init = Inr client"
    and "services init = pre @ (key, service) # post"
    and "name service \<notin> set (map (name \<circ> snd) post)"
  shows "\<exists>sc inst. client_get client (name service) = Some sc
           \<and> map_of sc ''instance'' = Some (PInstance inst)
           \<and> request_handlers inst
               = (case Option.bind (init_interceptors init) request of
                    None \<Rightarrow> []
                  | Some h \<Rightarrow> [\<lparr>fulfilled = onFulfilled h, rejected = onRejected h\<rparr>])
                 @ (case Option.bind (interceptors service) request of
                      None \<Rightarrow> []
                    | Some h \<Rightarrow> [\<lparr>fulfilled = onFulfilled h, rejected = onRejected h\<rparr>])
           \<and> response_handlers inst
               = (case Option.bind (init_interceptors init) response of
                    None \<Rightarrow> []
                  | Some h \<Rightarrow> [\<lparr>fulfilled = onFulfilled h, rejected = onRejected h\<rparr>])
                 @ (case Option.bind (interceptors service) response of
                      None \<Rightarrow> []
                    | Some h \<Rightarrow> [\<lparr>fulfilled = onFulfilled h, rejected = onRejected h\<rparr>])"
proof -
  let ?g = "globalConfig_of init" and ?gi = "init_interceptors init"
  from client_entry [OF assms] obtain eps where
    entry: "client_get client (name service) = Some (svcClient rootUrl ?g ?gi service eps)"
    by blast
  show ?thesis
    by (intro exI [of _ "svcClient rootUrl ?g ?gi service eps"]
          exI [of _ "service_instance rootUrl ?g ?gi service"] conjI)
       (simp_all only: entry svcClient_fields service_instance_fields)
qed

theorem interceptors_registered_global_first_witness:
  "createApiClient ''https://api.example.com'' example_init = Inr example_client
   \<and> services example_init = [] @ (''u'', users_service) # [(''p'', posts_service)]
   \<and> name users_service \<notin> set (map (name \<circ> snd) [(''p'', posts_service)])
   \<and> (\<exists>sc inst. client_get example_client ''users'' = Some sc
           \<and> map_of sc ''instance'' = Some (PInstance inst)
           \<and> request_handlers inst
               = [\<lparr>fulfilled = None, rejected = Some 10\<rparr>,
                  \<lparr>fulfilled = None, rejected = Some 20\<rparr>]
           \<and> response_handlers inst
               = [\<lparr>fulfilled = None, rejected = Some 11\<rparr>,
                  \<lparr>fulfilled = None, rejected = Some 21\<rparr>])"
proof -
  have h1: "createApiClient ''https://api.example.com'' example_init = Inr example_client"
    by (rule example_run)
  have h2: "services example_init = [] @ (''u'', users_service) # [(''p'', posts_service)]"
    by (rule example_services(1))
  have h3: "name users_service \<notin> set (map (name \<circ> snd) [(''p'', posts_service)])"
    by (simp add: users_service_def posts_service_def)
  have gi: "Option.bind (init_interceptors example_init) request
              = Some \<lparr>onFulfilled = None, onRejected = Some 10\<rparr>"
    "Option.bind (init_interceptors example_init) response
              = Some \<lparr>onFulfilled = None, onRejected = Some 11\<rparr>"
    "Option.bind (interceptors users_service) request
              = Some \<lparr>onFulfilled = None, onRejected = Some 20\<rparr>"
    "Option.bind (interceptors users_service) response
              = Some \<lparr>onFulfilled = None, onRejected = Some 21\<rparr>"
    "name users_service = ''users''"
    by (simp_all add: example_init_def users_service_def)
  from interceptors_registered_global_first [OF h1 h2 h3] h1 h2 h3
  show ?thesis unfolding gi by simp
qed

text \<open>
  Claim C3. For every assembled service, whatever keys the endpoint factory returns,
  the four metadata fields of the service client hold the metadata: \<open>baseUrl\<close> the
  service's segment, \<open>config\<close> the merged configuration, \<open>interceptors\<close> the service's
  interceptor set and \<open>instance\<close> the handle. An endpoint under one of these names is
  silently overwritten.
\<close>

theorem metadata_wins_over_endpoints:
  assumes "createApiClient rootUrl init = Inr client"
    and "services init = pre @ (key, service) # post"
    and "name service \<notin> set (map (name \<circ> snd) post)"
  shows "\<exists>sc eps. client_get client (name service) = Some sc
           \<and> build service
                (service_instance rootUrl (globalConfig_of init) (init_interceptors init) service)
              = Inr eps
           \<and> map_of sc ''baseUrl'' = Some (PVal (VStr (baseUrl service)))
           \<and> map_of sc ''config''
               = Some (PVal (VObj (axiosConfig rootUrl (globalConfig_of init) service)))
           \<and> map_of sc ''interceptors'' = Some (PInterceptors (interceptors service))
           \<and> map_of sc ''instance''
               = Some (PInstance (service_instance rootUrl (globalConfig_of init)
                                    (init_interceptors init) service))"
proof -
  let ?g = "globalConfig_of init" and ?gi = "init_interceptors init"
  from client_entry [OF assms] obtain eps where
    built: "build service (service_instance rootUrl ?g ?gi service) = Inr eps"
    and entry: "client_get client (name service) = Some (svcClient rootUrl ?g ?gi service eps)"
    by blast
  show ?thesis
    by (intro exI [of _ "svcClient rootUrl ?g ?gi service eps"] exI [of _ eps] conjI)
       (simp_all only: entry built svcClient_fields)
qed

theorem metadata_wins_over_endpoints_witness:
  "createApiClient ''https://api.example.com'' example_init = Inr example_client
   \<and> services example_init = [] @ (''u'', users_service) # [(''p'', posts_service)]
   \<and> name users_service \<notin> set (map (name \<circ> snd) [(''p'', posts_service)])
   \<and> (\<exists>sc eps. client_get example_client ''users'' = Some sc
           \<and> build users_service
                (service_instance ''https://api.example.com'' (globalConfig_of example_init)
                   (init_interceptors example_init) users_service)
              = Inr eps
           \<and> map_of eps ''config'' = Some (VFun 2)
           \<and> map_of sc ''config''
               = Some (PVal (VObj [(''baseURL'', VStr ''https://api.example.com/users''),
                                   (''timeout'', VNum 100),
                                   (''headers'', VObj [(''X-Svc'', VStr ''u'')])]))
           \<and> map_of sc ''config'' \<noteq> Some (PVal (VFun 2)))"
proof -
  have h1: "createApiClient ''https://api.example.com'' example_init = Inr example_client"
    by (rule example_run)
  have h2: "services example_init = [] @ (''u'', users_service) # [(''p'', posts_service)]"
    by (rule example_services(1))
  have h3: "name users_service \<notin> set (map (name \<circ> snd) [(''p'', posts_service)])"
    by (simp add: users_service_def posts_service_def)
  have ev: "name users_service = ''users''"
    "axiosConfig ''https://api.example.com'' (globalConfig_of example_init) users_service
       = [(''baseURL'', VStr ''https://api.example.com/users''),
          (''timeout'', VNum 100),
          (''headers'', VObj [(''X-Svc'', VStr ''u'')])]"
    by (simp_all add: users_service_def example_init_def globalConfig_of_def
        axiosConfig_def spread_def)
  from metadata_wins_over_endpoints [OF h1 h2 h3]
  obtain sc eps where
    a: "client_get example_client ''users'' = Some sc"
    and b: "build users_service
                (service_instance ''https://api.example.com'' (globalConfig_of example_init)
                   (init_interceptors example_init) users_service)
              = Inr eps"
    and c: "map_of sc ''config''
               = Some (PVal (VObj [(''baseURL'', VStr ''https://api.example.com/users''),
                                   (''timeout'', VNum 100),
                                   (''headers'', VObj [(''X-Svc'', VStr ''u'')])]))"
    unfolding ev by blast
  from b have d: "map_of eps ''config'' = Some (VFun 2)"
    by (auto simp add: users_service_def two_endpoints_def)
  from c have e: "map_of sc ''config'' \<noteq> Some (PVal (VFun 2))" by simp
  from a b c d e h1 h2 h3 show ?thesis by blast
qed

text \<open>
  Claim C4, as the specification states it, fails on a record whose name is empty:
  the constructor returns a descriptor with the empty name and raises nothing.
\<close>

theorem empty_name_accepted_counterexample:
  "cfg_name empty_name_cfg = ''''
   \<and> ApiService_new empty_name_cfg
       = Inr \<lparr>name = '''', baseUrl = '''', config = [], interceptors = None,
              build = one_endpoint\<rparr>
   \<and> ApiService_new empty_name_cfg \<noteq> Inl InvalidConfigError"
  by (simp add: ApiService_new_def empty_name_cfg_def)

text \<open>
  Claim C4, amended. For every configuration record, whatever its name, the constructor
  succeeds without side effects and never raises: the descriptor stores the name as
  given, the segment and the configuration with their defaults, the interceptor set and
  the factory.
\<close>

theorem constructor_always_succeeds:
  "(\<exists>service. ApiService_new cfg = Inr service
       \<and> name service = cfg_name cfg
       \<and> baseUrl service = (case cfg_baseUrl cfg of None \<Rightarrow> '''' | Some b \<Rightarrow> b)
       \<and> config service = (case cfg_config cfg of None \<Rightarrow> [] | Some c \<Rightarrow> c)
       \<and> interceptors service = cfg_interceptors cfg
       \<and> build service = cfg_endpoints cfg)
   \<and> ApiService_new cfg \<noteq> Inl e"
  by (simp add: ApiService_new_def)

text \<open>
  Claim C5, as the specification states it, fails on the example: the factory throws
  \<open>"boom"\<close> and \<open>createApiClient\<close> raises \<open>"boom"\<close> itself, not an
  \<open>EndpointFactoryError\<close> wrapping it.
\<close>

theorem factory_error_not_wrapped_counterexample:
  "build broken_service
     (service_instance ''https://api.example.com'' (globalConfig_of broken_init)
        (init_interceptors broken_init) broken_service)
     = Inl (VStr ''boom'')
   \<and> createApiClient ''https://api.example.com'' broken_init = Inl (Thrown (VStr ''boom''))
   \<and> createApiClient ''https://api.example.com'' broken_init
       \<noteq> Inl (EndpointFactoryError (VStr ''boom''))"
  by (simp add: broken_run) (simp add: broken_service_def throws_boom_def)

text \<open>
  Claim C5, amended. When the endpoint factory of some service throws \<open>X\<close> and the
  factories of the services before it in iteration order return, \<open>createApiClient\<close>
  aborts there and raises \<open>X\<close> itself, unwrapped.
\<close>

theorem factory_error_is_rethrown_as_is:
  assumes "services init = pre @ (key, service) # post"
    and "\<forall>(k, s) \<in> set pre.
           \<exists>eps. build s (service_instance rootUrl (globalConfig_of init)
                            (init_interceptors init) s) = Inr eps"
    and "build service
           (service_instance rootUrl (globalConfig_of init) (init_interceptors init) service)
         = Inl x"
  shows "createApiClient rootUrl init = Inl (Thrown x)"
  unfolding createApiClient_def
proof (rule assemble_first_throw [OF assms(1) _ assms(3)])
  fix k s assume "(k, s) \<in> set pre"
  with assms(2)
  show "\<exists>eps. build s (service_instance rootUrl (globalConfig_of init)
                         (init_interceptors init) s) = Inr eps"
    by blast
qed

theorem factory_error_is_rethrown_as_is_witness:
  "services broken_init = [(''p'', posts_service)] @ (''b'', broken_service) # [(''u'', users_service)]
   \<and> build posts_service
        (service_instance ''https://api.example.com'' (globalConfig_of broken_init)
           (init_interceptors broken_init) posts_service)
      = Inr [(''list'', VFun 3)]
   \<and> build broken_service
        (service_instance ''https://api.example.com'' (globalConfig_of broken_init)
           (init_interceptors broken_init) broken_service)
      = Inl (VStr ''boom'')
   \<and> createApiClient ''https://api.example.com'' broken_init = Inl (Thrown (VStr ''boom''))"
proof -
  have h1: "services broken_init
              = [(''p'', posts_service)] @ (''b'', broken_service) # [(''u'', users_service)]"
    by (simp add: broken_init_def)
  have h2: "\<forall>(k, s) \<in> set [(''p'', posts_service)].
         \<exists>eps. build s (service_instance ''https://api.example.com'' (globalConfig_of broken_init)
                          (init_interceptors broken_init) s) = Inr eps"
    by (simp add: posts_service_def one_endpoint_def)
  have h3: "build broken_service
        (service_instance ''https://api.example.com'' (globalConfig_of broken_init)
           (init_interceptors broken_init) broken_service)
      = Inl (VStr ''boom'')"
    by (simp add: broken_service_def throws_boom_def)
  have p: "build posts_service
        (service_instance ''https://api.example.com'' (globalConfig_of broken_init)
           (init_interceptors broken_init) posts_service)
      = Inr [(''list'', VFun 3)]"
    by (simp add: posts_service_def one_endpoint_def)
  from factory_error_is_rethrown_as_is [OF h1 h2 h3] h1 p h3 show ?thesis by blast
qed

text \<open>
  Claim C6. When the endpoint factory of some service throws, \<open>createApiClient\<close>
  returns no client at all: its outcome is the thrown value of a factory and nothing
  else, so no service, processed earlier or not, is in any returned value. Interceptor
  registration cannot fail in the transport as modelled, which leaves the factories as
  the only source of failure.
\<close>

theorem no_partial_client_on_failure:
  assumes "(key, service) \<in> set (services init)"
    and "build service
           (service_instance rootUrl (globalConfig_of init) (init_interceptors init) service)
         = Inl x"
  shows "(\<forall>client. createApiClient rootUrl init \<noteq> Inr client)
           \<and> (\<exists>(k, s) \<in> set (services init). \<exists>y.
                 build s (service_instance rootUrl (globalConfig_of init)
                            (init_interceptors init) s) = Inl y
                 \<and> createApiClient rootUrl init = Inl (Thrown y))"
proof -
  let ?g = "globalConfig_of init" and ?gi = "init_interceptors init"
  have none: "\<forall>client. createApiClient rootUrl init \<noteq> Inr client"
  proof (intro allI notI)
    fix client assume "createApiClient rootUrl init = Inr client"
    then have "assemble rootUrl ?g ?gi (services init) empty_client = Inr client"
      by (simp add: createApiClient_def)
    from assemble_all_built [OF this assms(1)] assms(2) show False by simp
  qed
  then obtain e where "assemble rootUrl ?g ?gi (services init) empty_client = Inl e"
    by (cases "assemble rootUrl ?g ?gi (services init) empty_client")
       (auto simp: createApiClient_def)
  from assemble_Inl [OF this] this
  have "\<exists>(k, s) \<in> set (services init). \<exists>y.
          build s (service_instance rootUrl ?g ?gi s) = Inl y
          \<and> createApiClient rootUrl init = Inl (Thrown y)"
    by (auto simp: createApiClient_def)
  with none show ?thesis by blast
qed

theorem no_partial_client_on_failure_witness:
  "(''b'', broken_service) \<in> set (services broken_init)
   \<and> build broken_service
        (service_instance ''https://api.example.com'' (globalConfig_of broken_init)
           (init_interceptors broken_init) broken_service)
      = Inl (VStr ''boom'')
   \<and> services broken_init
       = [(''p'', posts_service), (''b'', broken_service), (''u'', users_service)]
   \<and> (\<forall>client. createApiClient ''https://api.example.com'' broken_init \<noteq> Inr client)
   \<and> createApiClient ''https://api.example.com'' broken_init = Inl (Thrown (VStr ''boom''))"
proof -
  have h1: "(''b'', broken_service) \<in> set (services broken_init)"
    by (simp add: broken_init_def)
  have h2: "build broken_service
        (service_instance ''https://api.example.com'' (globalConfig_of broken_init)
           (init_interceptors broken_init) broken_service)
      = Inl (VStr ''boom'')"
    by (simp add: broken_service_def throws_boom_def)
  have h3: "services broken_init
       = [(''p'', posts_service), (''b'', broken_service), (''u'', users_service)]"
    by (simp add: broken_init_def)
  from no_partial_client_on_failure [OF h1 h2]
  have "\<forall>client. createApiClient ''https://api.example.com'' broken_init \<noteq> Inr client"
    by blast
  with h1 h2 h3 broken_run show ?thesis by blast
qed

text \<open>
  Claim C7: for descriptors with pairwise distinct names the returned client has exactly
  one entry per input service, keyed by the descriptor's name. The code misses this for
  the name \<open>__proto__\<close>: with two services of distinct names, the second named
  \<open>__proto__\<close>, the assignment \<open>client[service.name] = svcClient\<close> installs the
  second service client as the prototype of the client, and the returned client has a
  single own entry, \<open>posts\<close>, and none named \<open>__proto__\<close>.
\<close>

theorem proto_name_adds_no_own_entry:
  "distinct (map (name \<circ> snd) (services proto_init))
   \<and> length (services proto_init) = 2
   \<and> createApiClient ''https://api.example.com'' proto_init = Inr proto_client
   \<and> map fst (own proto_client) = [''posts'']
   \<and> length (own proto_client) = 1
   \<and> map_of (own proto_client) ''__proto__'' = None
   \<and> proto proto_client
       = Some (svcClient ''https://api.example.com'' (globalConfig_of proto_init)
                 (init_interceptors proto_init) proto_service [(''list'', VFun 3)])"
proof -
  have "createApiClient ''https://api.example.com'' proto_init = Inr proto_client"
    by (simp add: model_defs example_defs)
  moreover have "distinct (map (name \<circ> snd) (services proto_init))"
    "length (services proto_init) = 2"
    by (simp_all add: proto_init_def posts_service_def proto_service_def)
  moreover have "map fst (own proto_client) = [''posts'']"
    "length (own proto_client) = 1"
    "map_of (own proto_client) ''__proto__'' = None"
    by (simp_all add: proto_client_def)
  moreover have "proto proto_client
       = Some (svcClient ''https://api.example.com'' (globalConfig_of proto_init)
                 (init_interceptors proto_init) proto_service [(''list'', VFun 3)])"
    by (simp add: model_defs example_defs)
  ultimately show ?thesis by blast
qed

text \<open>
  Claim C8. A descriptor constructed without a \<open>baseUrl\<close> stores the empty segment,
  and then the base URL of the service is \<open>rootUrl\<close> itself. In general the base URL
  is the concatenation \<open>rootUrl + segment\<close>, character for character, and it is what
  the \<open>baseURL\<close> key of the client's \<open>config\<close> holds whenever neither the global nor
  the service configuration has a \<open>baseURL\<close> key of its own (Claim C1 gives the
  overriding). The client's \<open>baseUrl\<close> field is the segment alone.
\<close>

theorem base_url_is_root_plus_segment:
  assumes "createApiClient rootUrl init = Inr client"
    and "services init = pre @ (key, service) # post"
    and "name service \<notin> set (map (name \<circ> snd) post)"
    and "ApiService_new cfg = Inr service"
    and "''baseURL'' \<notin> fst ` set (globalConfig_of init)"
    and "''baseURL'' \<notin> fst ` set (config service)"
  shows "\<exists>sc c. client_get client (name service) = Some sc
           \<and> map_of sc ''config'' = Some (PVal (VObj c))
           \<and> map_of c ''baseURL'' = Some (VStr (rootUrl @ baseUrl service))
           \<and> map_of sc ''baseUrl'' = Some (PVal (VStr (baseUrl service)))
           \<and> baseUrl service = (case cfg_baseUrl cfg of None \<Rightarrow> '''' | Some b \<Rightarrow> b)
           \<and> (cfg_baseUrl cfg = None
                \<longrightarrow> baseUrl service = '''' \<and> map_of c ''baseURL'' = Some (VStr rootUrl))"
proof -
  let ?g = "globalConfig_of init" and ?gi = "init_interceptors init"
  from client_entry [OF assms(1-3)] obtain eps where
    entry: "client_get client (name service) = Some (svcClient rootUrl ?g ?gi service eps)"
    by blast
  have derived: "map_of (axiosConfig rootUrl ?g service) ''baseURL''
                   = Some (VStr (rootUrl @ baseUrl service))"
    unfolding axiosConfig_def
    by (simp add: map_of_spread_other [OF assms(6)] map_of_spread_other [OF assms(5)]
        map_of_spread)
  from assms(4) have seg: "baseUrl service = (case cfg_baseUrl cfg of None \<Rightarrow> '''' | Some b \<Rightarrow> b)"
    by (auto simp: ApiService_new_def)
  from entry derived seg show ?thesis
    by (intro exI [of _ "svcClient rootUrl ?g ?gi service eps"]
          exI [of _ "axiosConfig rootUrl ?g service"])
       (simp add: svcClient_fields)
qed

theorem base_url_is_root_plus_segment_witness:
  "createApiClient ''https://api.example.com'' example_init = Inr example_client
   \<and> services example_init = [(''u'', users_service)] @ (''p'', posts_service) # []
   \<and> name posts_service \<notin> set (map (name \<circ> snd) [])
   \<and> ApiService_new posts_cfg = Inr posts_service
   \<and> ''baseURL'' \<notin> fst ` set (globalConfig_of example_init)
   \<and> ''baseURL'' \<notin> fst ` set (config posts_service)
   \<and> cfg_baseUrl posts_cfg = None
   \<and> (\<exists>sc c. client_get example_client ''posts'' = Some sc
           \<and> map_of sc ''config'' = Some (PVal (VObj c))
           \<and> map_of c ''baseURL'' = Some (VStr ''https://api.example.com'')
           \<and> map_of sc ''baseUrl'' = Some (PVal (VStr '''')))
   \<and> services example_init = [] @ (''u'', users_service) # [(''p'', posts_service)]
   \<and> name users_service \<notin> set (map (name \<circ> snd) [(''p'', posts_service)])
   \<and> ApiService_new users_cfg = Inr users_service
   \<and> ''baseURL'' \<notin> fst ` set (config users_service)
   \<and> (\<exists>sc c. client_get example_client ''users'' = Some sc
           \<and> map_of sc ''config'' = Some (PVal (VObj c))
           \<and> map_of c ''baseURL'' = Some (VStr ''https://api.example.com/users'')
           \<and> map_of sc ''baseUrl'' = Some (PVal (VStr ''/users'')))"
proof -
  have h1: "createApiClient ''https://api.example.com'' example_init = Inr example_client"
    by (rule example_run)
  have p2: "services example_init = [(''u'', users_service)] @ (''p'', posts_service) # []"
    by (rule example_services(2))
  have p3: "name posts_service \<notin> set (map (name \<circ> snd) [])"
    by simp
  have p4: "ApiService_new posts_cfg = Inr posts_service"
    by (simp add: ApiService_new_def posts_cfg_def posts_service_def)
  have h5: "''baseURL'' \<notin> fst ` set (globalConfig_of example_init)"
    by (simp add: globalConfig_of_def example_init_def)
  have p6: "''baseURL'' \<notin> fst ` set (config posts_service)"
    by (simp add: posts_service_def)
  have p7: "cfg_baseUrl posts_cfg = None"
    by (simp add: posts_cfg_def)
  have u2: "services example_init = [] @ (''u'', users_service) # [(''p'', posts_service)]"
    by (rule example_services(1))
  have u3: "name users_service \<notin> set (map (name \<circ> snd) [(''p'', posts_service)])"
    by (simp add: users_service_def posts_service_def)
  have u4: "ApiService_new users_cfg = Inr users_service"
    by (simp add: ApiService_new_def users_cfg_def users_service_def)
  have u6: "''baseURL'' \<notin> fst ` set (config users_service)"
    by (simp add: users_service_def)
  have ev: "name posts_service = ''posts''" "baseUrl posts_service = ''''"
    "name users_service = ''users''" "baseUrl users_service = ''/users''"
    by (simp_all add: posts_service_def users_service_def)
  have posts: "\<exists>sc c. client_get example_client ''posts'' = Some sc
           \<and> map_of sc ''config'' = Some (PVal (VObj c))
           \<and> map_of c ''baseURL'' = Some (VStr ''https://api.example.com'')
           \<and> map_of sc ''baseUrl'' = Some (PVal (VStr ''''))"
    using base_url_is_root_plus_segment [OF h1 p2 p3 p4 h5 p6] p7
    unfolding ev by auto
  have users: "\<exists>sc c. client_get example_client ''users'' = Some sc
           \<and> map_of sc ''config'' = Some (PVal (VObj c))
           \<and> map_of c ''baseURL'' = Some (VStr ''https://api.example.com/users'')
           \<and> map_of sc ''baseUrl'' = Some (PVal (VStr ''/users''))"
    using base_url_is_root_plus_segment [OF h1 u2 u3 u4 h5 u6]
    unfolding ev by auto
  from h1 p2 p3 p4 h5 p6 p7 posts u2 u3 u4 u6 users show ?thesis by blast
qed

text \<open>
  Claim C9. A hook set whose \<open>onFulfilled\<close> is absent and whose \<open>onRejected\<close> is
  present does not make assembly fail: when no endpoint factory throws,
  \<open>createApiClient\<close> returns, and for each such hook set, global or of the service,
  request or response, the chain of the service's handle holds the registration with the
  fulfilled hook absent and the rejected hook as given.
\<close>

theorem absent_fulfilled_hook_is_passed_through:
  assumes "\<forall>(k, s) \<in> set (services init).
             \<exists>eps. build s (service_instance rootUrl (globalConfig_of init)
                              (init_interceptors init) s) = Inr eps"
    and "services init = pre @ (key, service) # post"
    and "name service \<notin> set (map (name \<circ> snd) post)"
  shows "\<exists>client sc inst. createApiClient rootUrl init = Inr client
           \<and> client_get client (name service) = Some sc
           \<and> map_of sc ''instance'' = Some (PInstance inst)
           \<and> (\<forall>h r. Option.bind (init_interceptors init) request = Some h
                      \<and> onFulfilled h = None \<and> onRejected h = Some r
                \<longrightarrow> \<lparr>fulfilled = None, rejected = Some r\<rparr> \<in> set (request_handlers inst))
           \<and> (\<forall>h r. Option.bind (init_interceptors init) response = Some h
                      \<and> onFulfilled h = None \<and> onRejected h = Some r
                \<longrightarrow> \<lparr>fulfilled = None, rejected = Some r\<rparr> \<in> set (response_handlers inst))
           \<and> (\<forall>h r. Option.bind (interceptors service) request = Some h
                      \<and> onFulfilled h = None \<and> onRejected h = Some r
                \<longrightarrow> \<lparr>fulfilled = None, rejected = Some r\<rparr> \<in> set (request_handlers inst))
           \<and> (\<forall>h r. Option.bind (interceptors service) response = Some h
                      \<and> onFulfilled h = None \<and> onRejected h = Some r
                \<longrightarrow> \<lparr>fulfilled = None, rejected = Some r\<rparr> \<in> set (response_handlers inst))"
proof -
  let ?g = "globalConfig_of init" and ?gi = "init_interceptors init"
  have "\<exists>client. assemble rootUrl ?g ?gi (services init) empty_client = Inr client"
  proof (rule assemble_total)
    fix k s assume "(k, s) \<in> set (services init)"
    with assms(1) show "\<exists>eps. build s (service_instance rootUrl ?g ?gi s) = Inr eps"
      by blast
  qed
  then obtain client where run: "createApiClient rootUrl init = Inr client"
    by (auto simp: createApiClient_def)
  from client_entry [OF run assms(2,3)] obtain eps where
    entry: "client_get client (name service) = Some (svcClient rootUrl ?g ?gi service eps)"
    by blast
  let ?inst = "service_instance rootUrl ?g ?gi service"
  have "\<forall>h r. Option.bind ?gi request = Some h \<and> onFulfilled h = None \<and> onRejected h = Some r
          \<longrightarrow> \<lparr>fulfilled = None, rejected = Some r\<rparr> \<in> set (request_handlers ?inst)"
    and "\<forall>h r. Option.bind ?gi response = Some h \<and> onFulfilled h = None \<and> onRejected h = Some r
          \<longrightarrow> \<lparr>fulfilled = None, rejected = Some r\<rparr> \<in> set (response_handlers ?inst)"
    and "\<forall>h r. Option.bind (interceptors service) request = Some h
               \<and> onFulfilled h = None \<and> onRejected h = Some r
          \<longrightarrow> \<lparr>fulfilled = None, rejected = Some r\<rparr> \<in> set (request_handlers ?inst)"
    and "\<forall>h r. Option.bind (interceptors service) response = Some h
               \<and> onFulfilled h = None \<and> onRejected h = Some r
          \<longrightarrow> \<lparr>fulfilled = None, rejected = Some r\<rparr> \<in> set (response_handlers ?inst)"
    by (simp_all add: service_instance_fields)
  with run entry show ?thesis
    by (intro exI [of _ client] exI [of _ "svcClient rootUrl ?g ?gi service eps"]
          exI [of _ ?inst])
       (simp add: svcClient_fields)
qed

theorem absent_fulfilled_hook_is_passed_through_witness:
  "build users_service
     (service_instance ''https://api.example.com'' (globalConfig_of example_init)
        (init_interceptors example_init) users_service)
     = Inr [(''getUser'', VFun 1), (''config'', VFun 2)]
   \<and> build posts_service
        (service_instance ''https://api.example.com'' (globalConfig_of example_init)
           (init_interceptors example_init) posts_service)
      = Inr [(''list'', VFun 3)]
   \<and> services example_init = [] @ (''u'', users_service) # [(''p'', posts_service)]
   \<and> name users_service \<notin> set (map (name \<circ> snd) [(''p'', posts_service)])
   \<and> Option.bind (init_interceptors example_init) request
       = Some \<lparr>onFulfilled = None, onRejected = Some 10\<rparr>
   \<and> Option.bind (init_interceptors example_init) response
       = Some \<lparr>onFulfilled = None, onRejected = Some 11\<rparr>
   \<and> Option.bind (interceptors users_service) request
       = Some \<lparr>onFulfilled = None, onRejected = Some 20\<rparr>
   \<and> Option.bind (interceptors users_service) response
       = Some \<lparr>onFulfilled = None, onRejected = Some 21\<rparr>
   \<and> (\<exists>client sc inst.
         createApiClient ''https://api.example.com'' example_init = Inr client
           \<and> client_get client ''users'' = Some sc
           \<and> map_of sc ''instance'' = Some (PInstance inst)
           \<and> \<lparr>fulfilled = None, rejected = Some 10\<rparr> \<in> set (request_handlers inst)
           \<and> \<lparr>fulfilled = None, rejected = Some 11\<rparr> \<in> set (response_handlers inst)
           \<and> \<lparr>fulfilled = None, rejected = Some 20\<rparr> \<in> set (request_handlers inst)
           \<and> \<lparr>fulfilled = None, rejected = Some 21\<rparr> \<in> set (response_handlers inst))"
proof -
  have h1: "\<forall>(k, s) \<in> set (services example_init).
      \<exists>eps. build s (service_instance ''https://api.example.com'' (globalConfig_of example_init)
                       (init_interceptors example_init) s) = Inr eps"
    by (simp add: example_init_def users_service_def posts_service_def
        two_endpoints_def one_endpoint_def)
  have h2: "services example_init = [] @ (''u'', users_service) # [(''p'', posts_service)]"
    by (rule example_services(1))
  have h3: "name users_service \<notin> set (map (name \<circ> snd) [(''p'', posts_service)])"
    by (simp add: users_service_def posts_service_def)
  have gr: "Option.bind (init_interceptors example_init) request
              = Some \<lparr>onFulfilled = None, onRejected = Some 10\<rparr>"
    and gs: "Option.bind (init_interceptors example_init) response
              = Some \<lparr>onFulfilled = None, onRejected = Some 11\<rparr>"
    and sr: "Option.bind (interceptors users_service) request
              = Some \<lparr>onFulfilled = None, onRejected = Some 20\<rparr>"
    and ss: "Option.bind (interceptors users_service) response
              = Some \<lparr>onFulfilled = None, onRejected = Some 21\<rparr>"
    and nm: "name users_service = ''users''"
    by (simp_all add: example_init_def users_service_def)
  from absent_fulfilled_hook_is_passed_through [OF h1 h2 h3]
  have "\<exists>client sc inst.
         createApiClient ''https://api.example.com'' example_init = Inr client
           \<and> client_get client ''users'' = Some sc
           \<and> map_of sc ''instance'' = Some (PInstance inst)
           \<and> \<lparr>fulfilled = None, rejected = Some 10\<rparr> \<in> set (request_handlers inst)
           \<and> \<lparr>fulfilled = None, rejected = Some 11\<rparr> \<in> set (response_handlers inst)
           \<and> \<lparr>fulfilled = None, rejected = Some 20\<rparr> \<in> set (request_handlers inst)
           \<and> \<lparr>fulfilled = None, rejected = Some 21\<rparr> \<in> set (response_handlers inst)"
    unfolding gr gs sr ss nm by simp
  moreover have "build users_service
     (service_instance ''https://api.example.com'' (globalConfig_of example_init)
        (init_interceptors example_init) users_service)
     = Inr [(''getUser'', VFun 1), (''config'', VFun 2)]"
    by (simp add: users_service_def two_endpoints_def)
  moreover have "build posts_service
        (service_instance ''https://api.example.com'' (globalConfig_of example_init)
           (init_interceptors example_init) posts_service)
      = Inr [(''list'', VFun 3)]"
    by (simp add: posts_service_def one_endpoint_def)
  ultimately show ?thesis using h2 h3 gr gs sr ss by blast
qed

text \<open>
  Claim C10. For every assembled service, the \<open>interceptors\<close> field of its service
  client is exactly the interceptor set stored in the descriptor, which is the one its
  constructor was given: it does not depend on the global interceptors, and it is
  \<open>undefined\<close> when the descriptor has none.
\<close>

theorem interceptors_field_is_service_level:
  assumes "createApiClient rootUrl init = Inr client"
    and "services init = pre @ (key, service) # post"
    and "name service \<notin> set (map (name \<circ> snd) post)"
  shows "\<exists>sc. client_get client (name service) = Some sc
           \<and> map_of sc ''interceptors'' = Some (PInterceptors (interceptors service))
           \<and> (interceptors service = None
                \<longrightarrow> map_of sc ''interceptors'' = Some (PInterceptors None))
           \<and> (\<forall>cfg. ApiService_new cfg = Inr service
                \<longrightarrow> map_of sc ''interceptors'' = Some (PInterceptors (cfg_interceptors cfg)))"
proof -
  let ?g = "globalConfig_of init" and ?gi = "init_interceptors init"
  from client_entry [OF assms] obtain eps where
    entry: "client_get client (name service) = Some (svcClient rootUrl ?g ?gi service eps)"
    by blast
  have ctor: "\<forall>cfg. ApiService_new cfg = Inr service
                \<longrightarrow> interceptors service = cfg_interceptors cfg"
    by (auto simp: ApiService_new_def)
  with entry show ?thesis
    by (intro exI [of _ "svcClient rootUrl ?g ?gi service eps"])
       (simp add: svcClient_fields)
qed

theorem interceptors_field_is_service_level_witness:
  "createApiClient ''https://api.example.com'' example_init = Inr example_client
   \<and> services example_init = [(''u'', users_service)] @ (''p'', posts_service) # []
   \<and> name posts_service \<notin> set (map (name \<circ> snd) [])
   \<and> interceptors posts_service = None
   \<and> ApiService_new posts_cfg = Inr posts_service
   \<and> init_interceptors example_init
       = Some \<lparr>request = Some \<lparr>onFulfilled = None, onRejected = Some 10\<rparr>,
               response = Some \<lparr>onFulfilled = None, onRejected = Some 11\<rparr>\<rparr>
   \<and> (\<exists>sc. client_get example_client ''posts'' = Some sc
           \<and> map_of sc ''interceptors'' = Some (PInterceptors None)
           \<and> map_of sc ''interceptors'' = Some (PInterceptors (cfg_interceptors posts_cfg)))"
proof -
  have h1: "createApiClient ''https://api.example.com'' example_init = Inr example_client"
    by (rule example_run)
  have h2: "services example_init = [(''u'', users_service)] @ (''p'', posts_service) # []"
    by (rule example_services(2))
  have h3: "name posts_service \<notin> set (map (name \<circ> snd) [])"
    by simp
  have h4: "interceptors posts_service = None" "name posts_service = ''posts''"
    by (simp_all add: posts_service_def)
  have h5: "ApiService_new posts_cfg = Inr posts_service"
    by (simp add: ApiService_new_def posts_cfg_def posts_service_def)
  have h6: "init_interceptors example_init
       = Some \<lparr>request = Some \<lparr>onFulfilled = None, onRejected = Some 10\<rparr>,
               response = Some \<lparr>onFulfilled = None, onRejected = Some 11\<rparr>\<rparr>"
    by (simp add: example_init_def)
  from interceptors_field_is_service_level [OF h1 h2 h3] h4 h5
  obtain sc where "client_get example_client ''posts'' = Some sc"
    "map_of sc ''interceptors'' = Some (PInterceptors None)"
    "map_of sc ''interceptors'' = Some (PInterceptors (cfg_interceptors posts_cfg))"
    by auto
  with h1 h2 h3 h4 h5 h6 show ?thesis by blast
qed

end
